theory Spec2Isabelle
  imports Main "HOL-Library.Char_ord" "HOL-Library.List_Lexorder"
begin

section \<open>DnaCauldron: fragment cycles, assembly mixes and BASIC assembly\<close>

text \<open>
  A shallow embedding of \<^verbatim>\<open>dnacauldron/AssemblyMix.py\<close> (classes \<^verbatim>\<open>FragmentsCycle\<close> and
  \<^verbatim>\<open>AssemblyMix\<close>) and of
  \<^verbatim>\<open>dnacauldron/Assembly/builtin_assembly_classes/BASICAssembly.py\<close>.
  Python exceptions are values of \<open>py_error\<close>; a function that can raise returns
  \<open>py_error + 'a\<close> with \<open>Inl\<close> for the exception.
\<close>

datatype py_error =
    ZeroDivisionError
  | ValueError
  | TypeError
  | IndexError
  | KeyError
  | RandomizationStaled

subsection \<open>Fragments\<close>

text \<open>
  Fragments are Python objects that point to each other (\<^verbatim>\<open>f.reverse_fragment\<close>), so a
  fragment is an object identity (\<open>frag\<close>) and its attributes live in a store. Only the
  attributes that \<^verbatim>\<open>AssemblyMix.py\<close> reads are kept: the text that
  \<^verbatim>\<open>"%s" % f.seq.left_end\<close> prints, the text of \<^verbatim>\<open>f.seq\<close> (its length is \<^verbatim>\<open>len(f)\<close>), the text
  of \<^verbatim>\<open>f.seq.right_end\<close>, the flag \<^verbatim>\<open>is_reverse\<close> and the twin \<^verbatim>\<open>reverse_fragment\<close>.
\<close>

type_synonym frag = nat

record fragment =
  left_end :: string
  seq :: string
  right_end :: string
  is_reverse :: bool
  reverse_fragment :: frag

type_synonym store = "frag \<Rightarrow> fragment"

definition frag_len :: "store \<Rightarrow> frag \<Rightarrow> nat" where
  "frag_len h f = length (seq (h f))"

text \<open>\<^verbatim>\<open>"%s%s%s" % (f.seq.left_end, f.seq, f.seq.right_end)\<close>\<close>

definition frag_key :: "store \<Rightarrow> frag \<Rightarrow> string" where
  "frag_key h f = left_end (h f) @ seq (h f) @ right_end (h f)"

subsection \<open>FragmentsCycle\<close>

text \<open>
  \<^verbatim>\<open>list.index\<close>: the first position of an element. It is only called on \<^verbatim>\<open>min(sequences)\<close>,
  which is in the list, so the \<^verbatim>\<open>ValueError\<close> of a missing element cannot happen there.
\<close>

fun index_of :: "'a \<Rightarrow> 'a list \<Rightarrow> nat" where
  "index_of x [] = 0"
| "index_of x (y # ys) = (if x = y then 0 else Suc (index_of x ys))"

text \<open>\<^verbatim>\<open>sequences.index(min(sequences))\<close>\<close>

definition min_index :: "string list \<Rightarrow> nat" where
  "min_index sequences = index_of (min_list sequences) sequences"

text \<open>
  A cycle object is its list \<^verbatim>\<open>fragments\<close>; the list is never mutated after construction.
  The constructor evaluates \<^verbatim>\<open>hash(self)\<close>, whose \<^verbatim>\<open>min(sequences)\<close> raises \<^verbatim>\<open>ValueError\<close> on an
  empty list: no cycle object has an empty fragment list.
\<close>

type_synonym cycle = "frag list"

definition FragmentsCycle :: "frag list \<Rightarrow> py_error + cycle" where
  "FragmentsCycle fragments = (if fragments = [] then Inl ValueError else Inr fragments)"

text \<open>
  \<^verbatim>\<open>__hash__\<close>, stored in \<^verbatim>\<open>self.hash\<close> at construction. Python's hash of a string is the
  parameter \<open>H\<close>.
\<close>

definition cycle_hash :: "(string \<Rightarrow> 'h) \<Rightarrow> store \<Rightarrow> cycle \<Rightarrow> 'h" where
  "cycle_hash H h c =
     (let sequences = map (frag_key h) c;
          index = min_index sequences;
          sequences' = drop index sequences @ take index sequences
      in H (concat sequences'))"

text \<open>
  \<^verbatim>\<open>reverse_complement\<close>: the twins in reverse order. The new cycle is as long as the old
  one, so its construction cannot fail.
\<close>

definition reverse_complement :: "store \<Rightarrow> cycle \<Rightarrow> cycle" where
  "reverse_complement h c = rev (map (\<lambda>f. reverse_fragment (h f)) c)"

definition is_equivalent_to ::
  "(string \<Rightarrow> 'h) \<Rightarrow> store \<Rightarrow> cycle \<Rightarrow> cycle \<Rightarrow> bool \<Rightarrow> bool" where
  "is_equivalent_to H h c other consider_reverse =
     (if cycle_hash H h c = cycle_hash H h other then True
      else if consider_reverse
        then cycle_hash H h c = cycle_hash H h (reverse_complement h c)
      else False)"

text \<open>
  The two sums of \<^verbatim>\<open>standardized\<close>: the length of the reverse-flagged fragments and the
  length of all fragments.
\<close>

definition reverse_length :: "store \<Rightarrow> cycle \<Rightarrow> nat" where
  "reverse_length h c = sum_list (map (frag_len h) (filter (\<lambda>f. is_reverse (h f)) c))"

definition total_length :: "store \<Rightarrow> cycle \<Rightarrow> nat" where
  "total_length h c = sum_list (map (frag_len h) c)"

text \<open>
  \<^verbatim>\<open>standardized\<close>. The float division raises \<^verbatim>\<open>ZeroDivisionError\<close> when the total length is
  zero. The test \<^verbatim>\<open>reverse_proportion > 0.5\<close> on the float quotient of two lengths is the
  integer test \<open>total < 2 * reverse\<close> (the quotient of two integers below \<open>2^52\<close> rounds to
  more than one half exactly when it is more than one half). The index is computed from
  \<^verbatim>\<open>self.fragments\<close> and applied to \<^verbatim>\<open>std_fragments\<close>, as the source does.
\<close>

definition standardized :: "store \<Rightarrow> cycle \<Rightarrow> py_error + cycle" where
  "standardized h c =
     (if total_length h c = 0 then Inl ZeroDivisionError
      else
        let std_fragments =
              (if total_length h c < 2 * reverse_length h c
               then reverse_complement h c else c);
            sequences = map (frag_key h) c;
            index = min_index sequences
        in FragmentsCycle (drop index std_fragments @ take index std_fragments))"

text \<open>
  What \<^verbatim>\<open>compute_reverse_fragments\<close> establishes for a fragment of a mix and its twin: the
  two point to each other, exactly one of them is flagged \<^verbatim>\<open>is_reverse\<close>, and they have
  the same length (the twin is the reverse complement).
\<close>

definition twin_ok :: "store \<Rightarrow> frag \<Rightarrow> bool" where
  "twin_ok h f =
     (reverse_fragment (h (reverse_fragment (h f))) = f \<and>
      is_reverse (h (reverse_fragment (h f))) = (\<not> is_reverse (h f)) \<and>
      frag_len h (reverse_fragment (h f)) = frag_len h f)"

definition twins_ok :: "store \<Rightarrow> frag list \<Rightarrow> bool" where
  "twins_ok h c = list_all (twin_ok h) c"

text \<open>The rotation that \<^verbatim>\<open>__hash__\<close> applies to the list of keys (used in the proofs).\<close>

definition canon :: "string list \<Rightarrow> string list" where
  "canon ks = drop (min_index ks) ks @ take (min_index ks) ks"

subsection \<open>AssemblyMix: the connections graph\<close>

text \<open>
  \<^verbatim>\<open>itertools.combinations(xs, 2)\<close>: the pairs of elements at positions \<open>i < j\<close>, in
  lexicographic order of the positions.
\<close>

fun combinations2 :: "'a list \<Rightarrow> ('a \<times> 'a) list" where
  "combinations2 [] = []"
| "combinations2 (x # xs) = map (Pair x) xs @ combinations2 xs"

text \<open>
  \<^verbatim>\<open>networkx.DiGraph\<close>, as far as the code uses it: a set of nodes and a set of directed
  edges; \<^verbatim>\<open>add_edge\<close> adds both end points to the nodes.
\<close>

record 'a digraph =
  nodes :: "'a set"
  edges :: "('a \<times> 'a) set"

definition empty_digraph :: "'a digraph" where
  "empty_digraph = \<lparr>nodes = {}, edges = {}\<rparr>"

definition add_edge :: "'a digraph \<Rightarrow> 'a \<Rightarrow> 'a \<Rightarrow> 'a digraph" where
  "add_edge g u v = \<lparr>nodes = insert u (insert v (nodes g)), edges = insert (u, v) (edges g)\<rparr>"

text \<open>
  The body of the loop of \<^verbatim>\<open>compute_connections_graph\<close>, and the loop. The ligation rule
  \<^verbatim>\<open>will_clip_in_this_order\<close> belongs to the subclass (it reads sticky ends, whose class is
  not part of these sources): it is the parameter \<open>will_clip_in_this_order\<close>. The nodes
  of the graph are the fragment objects themselves, so equality on the node type \<open>'a\<close>
  is object identity; the fragments of a mix are pairwise distinct objects (digestion and
  \<^verbatim>\<open>compute_reverse_fragments\<close> create each of them).
\<close>

definition connect_pair ::
  "('a \<Rightarrow> 'a \<Rightarrow> bool) \<Rightarrow> 'a \<times> 'a \<Rightarrow> 'a digraph \<Rightarrow> 'a digraph" where
  "connect_pair will_clip_in_this_order p g =
     (let fragment1 = fst p; fragment2 = snd p;
          g1 = (if will_clip_in_this_order fragment1 fragment2
                then add_edge g fragment1 fragment2 else g)
      in if will_clip_in_this_order fragment2 fragment1
         then add_edge g1 fragment2 fragment1 else g1)"

definition compute_connections_graph ::
  "('a \<Rightarrow> 'a \<Rightarrow> bool) \<Rightarrow> 'a list \<Rightarrow> 'a list \<Rightarrow> 'a digraph" where
  "compute_connections_graph will_clip_in_this_order fragments reverse_fragments =
     (let all_fragments = fragments @ reverse_fragments
      in fold (connect_pair will_clip_in_this_order) (combinations2 all_fragments)
           empty_digraph)"

subsection \<open>AssemblyMix: the streams of circular fragment sets\<close>

text \<open>
  A generator is modelled by what a consumer that pulls to the end receives: the list of
  the yielded values and how the stream ended. \<^verbatim>\<open>networkx.simple_cycles\<close> is a
  collaborator: the cycles it enumerates are an input, in the order it gives them.
\<close>

datatype stream_end = StopIteration | Raised py_error | Pending

text \<open>\<^verbatim>\<open>all(fl(cycle.fragments) for fl in fragments_set_filters)\<close>\<close>

definition passes_filters :: "(frag list \<Rightarrow> bool) list \<Rightarrow> cycle \<Rightarrow> bool" where
  "passes_filters fragments_set_filters cyc = list_all (\<lambda>fl. fl cyc) fragments_set_filters"

text \<open>\<^verbatim>\<open>FragmentsCycle(cycle).standardized()\<close>\<close>

definition standardized_cycle :: "store \<Rightarrow> frag list \<Rightarrow> py_error + cycle" where
  "standardized_cycle h c =
     (case FragmentsCycle c of Inl e \<Rightarrow> Inl e | Inr c' \<Rightarrow> standardized h c')"

text \<open>
  The generator of \<^verbatim>\<open>compute_circular_fragments_sets\<close> with \<^verbatim>\<open>randomize=False\<close>, started
  with the set \<open>seen_hashes\<close> (empty in the source).
\<close>

fun circular_fragments_generator ::
  "(string \<Rightarrow> 'h) \<Rightarrow> store \<Rightarrow> (frag list \<Rightarrow> bool) list \<Rightarrow> 'h set \<Rightarrow> frag list list
     \<Rightarrow> cycle list \<times> stream_end" where
  "circular_fragments_generator H h fls seen_hashes [] = ([], StopIteration)"
| "circular_fragments_generator H h fls seen_hashes (c # cs) =
     (case standardized_cycle h c of
        Inl e \<Rightarrow> ([], Raised e)
      | Inr cyc \<Rightarrow>
          if cycle_hash H h cyc \<in> seen_hashes
          then circular_fragments_generator H h fls seen_hashes cs
          else if passes_filters fls cyc
          then (case circular_fragments_generator H h fls
                       (insert (cycle_hash H h cyc) seen_hashes) cs of
                  (ys, e) \<Rightarrow> (cyc # ys, e))
          else circular_fragments_generator H h fls
                 (insert (cycle_hash H h cyc) seen_hashes) cs)"

definition compute_circular_fragments_sets ::
  "(string \<Rightarrow> 'h) \<Rightarrow> store \<Rightarrow> (frag list \<Rightarrow> bool) list \<Rightarrow> frag list list
     \<Rightarrow> cycle list \<times> stream_end" where
  "compute_circular_fragments_sets H h fls simple_cycles =
     circular_fragments_generator H h fls {} simple_cycles"

text \<open>
  Randomized mode. One pass is the \<^verbatim>\<open>for\<close> loop over the cycles that
  \<^verbatim>\<open>simple_cycles\<close> enumerates after one shuffle, started with \<open>counter\<close> (0 in the source):
  it ends with a yield (\<^verbatim>\<open>yield\<close> then \<^verbatim>\<open>break\<close>), with the \<^verbatim>\<open>ValueError\<close> of a staled
  randomization, with another exception, or by exhausting the cycles (the \<^verbatim>\<open>else\<close> branch
  of the \<^verbatim>\<open>for\<close>).
\<close>

datatype 'h pass_result =
    Yield cycle "'h set"
  | Exhausted
  | Failed py_error

fun run_pass ::
  "(string \<Rightarrow> 'h) \<Rightarrow> store \<Rightarrow> (frag list \<Rightarrow> bool) list \<Rightarrow> int \<Rightarrow> 'h set \<Rightarrow> int
     \<Rightarrow> frag list list \<Rightarrow> 'h pass_result" where
  "run_pass H h fls cutoff seen_hashes counter [] = Exhausted"
| "run_pass H h fls cutoff seen_hashes counter (c # cs) =
     (case standardized_cycle h c of
        Inl e \<Rightarrow> Failed e
      | Inr cyc \<Rightarrow>
          if cycle_hash H h cyc \<in> seen_hashes
          then (if counter + 1 > cutoff then Failed RandomizationStaled
                else run_pass H h fls cutoff seen_hashes (counter + 1) cs)
          else if passes_filters fls cyc
          then Yield cyc (insert (cycle_hash H h cyc) seen_hashes)
          else run_pass H h fls cutoff (insert (cycle_hash H h cyc) seen_hashes) counter cs)"

text \<open>
  The \<^verbatim>\<open>while True\<close> loop. Its input is the list of the enumerations that the successive
  shuffles give; when the list is used up the stream is \<open>Pending\<close> (the consumer has
  stopped pulling).
\<close>

fun random_fragments_generator ::
  "(string \<Rightarrow> 'h) \<Rightarrow> store \<Rightarrow> (frag list \<Rightarrow> bool) list \<Rightarrow> int \<Rightarrow> 'h set
     \<Rightarrow> frag list list list \<Rightarrow> cycle list \<times> stream_end" where
  "random_fragments_generator H h fls cutoff seen_hashes [] = ([], Pending)"
| "random_fragments_generator H h fls cutoff seen_hashes (p # ps) =
     (case run_pass H h fls cutoff seen_hashes 0 p of
        Yield cyc seen' \<Rightarrow>
          (case random_fragments_generator H h fls cutoff seen' ps of
             (ys, e) \<Rightarrow> (cyc # ys, e))
      | Exhausted \<Rightarrow> ([], StopIteration)
      | Failed e \<Rightarrow> ([], Raised e))"

text \<open>
  Two readings of a stream in randomized mode, used to state when it stales: the
  number of already-seen cycles that a pass meets before it yields or fails (a new
  cycle that the filters reject joins \<^verbatim>\<open>seen_hashes\<close> and the count goes on), and the set
  \<^verbatim>\<open>seen_hashes\<close> at the start of the pass that ended the stream.
\<close>

fun seen_in_pass ::
  "(string \<Rightarrow> 'h) \<Rightarrow> store \<Rightarrow> (frag list \<Rightarrow> bool) list \<Rightarrow> 'h set \<Rightarrow> frag list list \<Rightarrow> nat" where
  "seen_in_pass H h fls seen_hashes [] = 0"
| "seen_in_pass H h fls seen_hashes (c # cs) =
     (case standardized_cycle h c of
        Inl e \<Rightarrow> 0
      | Inr cyc \<Rightarrow>
          if cycle_hash H h cyc \<in> seen_hashes
          then Suc (seen_in_pass H h fls seen_hashes cs)
          else if passes_filters fls cyc then 0
          else seen_in_pass H h fls (insert (cycle_hash H h cyc) seen_hashes) cs)"

fun seen_at_last_pass ::
  "(string \<Rightarrow> 'h) \<Rightarrow> store \<Rightarrow> (frag list \<Rightarrow> bool) list \<Rightarrow> int \<Rightarrow> 'h set
     \<Rightarrow> frag list list list \<Rightarrow> 'h set" where
  "seen_at_last_pass H h fls cutoff seen_hashes [] = seen_hashes"
| "seen_at_last_pass H h fls cutoff seen_hashes (p # ps) =
     (case run_pass H h fls cutoff seen_hashes 0 p of
        Yield cyc seen' \<Rightarrow> seen_at_last_pass H h fls cutoff seen' ps
      | Exhausted \<Rightarrow> seen_hashes
      | Failed e \<Rightarrow> seen_hashes)"

text \<open>
  The pass as the specification words it, for comparison with \<open>run_pass\<close>: the counter
  of duplicates is reset on every new canonical cycle, also on one that a filter rejects.
\<close>

fun spec_run_pass ::
  "(string \<Rightarrow> 'h) \<Rightarrow> store \<Rightarrow> (frag list \<Rightarrow> bool) list \<Rightarrow> int \<Rightarrow> 'h set \<Rightarrow> int
     \<Rightarrow> frag list list \<Rightarrow> 'h pass_result" where
  "spec_run_pass H h fls cutoff seen_hashes counter [] = Exhausted"
| "spec_run_pass H h fls cutoff seen_hashes counter (c # cs) =
     (case standardized_cycle h c of
        Inl e \<Rightarrow> Failed e
      | Inr cyc \<Rightarrow>
          if cycle_hash H h cyc \<in> seen_hashes
          then (if counter + 1 > cutoff then Failed RandomizationStaled
                else spec_run_pass H h fls cutoff seen_hashes (counter + 1) cs)
          else if passes_filters fls cyc
          then Yield cyc (insert (cycle_hash H h cyc) seen_hashes)
          else spec_run_pass H h fls cutoff (insert (cycle_hash H h cyc) seen_hashes) 0 cs)"

subsection \<open>An example mix\<close>

text \<open>
  Four parts and their reverse complements, used for the concrete instances below. The
  forward fragments are 0, 2, 4 and 6; fragment \<open>2 * k + 1\<close> is the twin of \<open>2 * k\<close>.
  Fragment 6 carries the palindromic overhang AATT on both sides.
\<close>

definition example_fragments :: "fragment list" where
  "example_fragments =
     [\<lparr>left_end = ''AATG'', seq = ''CCCC'', right_end = ''GCTT'', is_reverse = False, reverse_fragment = 1\<rparr>,
      \<lparr>left_end = ''AAGC'', seq = ''GGGG'', right_end = ''CATT'', is_reverse = True, reverse_fragment = 0\<rparr>,
      \<lparr>left_end = ''CATT'', seq = ''AAAA'', right_end = ''AAGC'', is_reverse = False, reverse_fragment = 3\<rparr>,
      \<lparr>left_end = ''GCTT'', seq = ''TTTT'', right_end = ''AATG'', is_reverse = True, reverse_fragment = 2\<rparr>,
      \<lparr>left_end = ''GCTT'', seq = ''TTTTTT'', right_end = ''AATG'', is_reverse = False, reverse_fragment = 5\<rparr>,
      \<lparr>left_end = ''CATT'', seq = ''AAAAAA'', right_end = ''AAGC'', is_reverse = True, reverse_fragment = 4\<rparr>,
      \<lparr>left_end = ''AATT'', seq = ''GGCC'', right_end = ''AATT'', is_reverse = False, reverse_fragment = 7\<rparr>,
      \<lparr>left_end = ''AATT'', seq = ''GGCC'', right_end = ''AATT'', is_reverse = True, reverse_fragment = 6\<rparr>]"

definition example_store :: store where
  "example_store f = example_fragments ! (f mod 8)"

text \<open>An example ligation rule: a non-empty right end equal to the next left end.\<close>

definition example_clip :: "frag \<Rightarrow> frag \<Rightarrow> bool" where
  "example_clip f1 f2 =
     (right_end (example_store f1) \<noteq> [] \<and>
      right_end (example_store f1) = left_end (example_store f2))"

text \<open>An example fragment-set filter: it rejects the cycles that contain fragment 3.\<close>

definition example_filter :: "frag list \<Rightarrow> bool" where
  "example_filter fs = (3 \<notin> set fs)"

text \<open>
  A second mix, in which one part is present twice: the forward fragments 0 and 4 are two
  objects with the same sequence and the same ends; 2 and 6 are inserts of different
  lengths that fit between them. Again fragment \<open>2 * k + 1\<close> is the twin of \<open>2 * k\<close>.
\<close>

definition second_fragments :: "fragment list" where
  "second_fragments =
     [\<lparr>left_end = ''AAAC'', seq = ''CCCC'', right_end = ''CCCA'', is_reverse = False, reverse_fragment = 1\<rparr>,
      \<lparr>left_end = ''TGGG'', seq = ''GGGG'', right_end = ''GTTT'', is_reverse = True, reverse_fragment = 0\<rparr>,
      \<lparr>left_end = ''CCCA'', seq = ''TTTTTT'', right_end = ''AAAC'', is_reverse = False, reverse_fragment = 3\<rparr>,
      \<lparr>left_end = ''GTTT'', seq = ''AAAAAA'', right_end = ''TGGG'', is_reverse = True, reverse_fragment = 2\<rparr>,
      \<lparr>left_end = ''AAAC'', seq = ''CCCC'', right_end = ''CCCA'', is_reverse = False, reverse_fragment = 5\<rparr>,
      \<lparr>left_end = ''TGGG'', seq = ''GGGG'', right_end = ''GTTT'', is_reverse = True, reverse_fragment = 4\<rparr>,
      \<lparr>left_end = ''CCCA'', seq = ''TTTTTTTT'', right_end = ''AAAC'', is_reverse = False, reverse_fragment = 7\<rparr>,
      \<lparr>left_end = ''GTTT'', seq = ''AAAAAAAA'', right_end = ''TGGG'', is_reverse = True, reverse_fragment = 6\<rparr>]"

definition second_store :: store where
  "second_store f = second_fragments ! (f mod 8)"

definition second_clip :: "frag \<Rightarrow> frag \<Rightarrow> bool" where
  "second_clip f1 f2 =
     (right_end (second_store f1) \<noteq> [] \<and>
      right_end (second_store f1) = left_end (second_store f2))"

subsection \<open>BASICAssembly: the data\<close>

text \<open>
  The classes that \<^verbatim>\<open>BASICAssembly.py\<close> imports are not part of these sources. Each is a
  record of the attributes that \<^verbatim>\<open>BASICAssembly.py\<close> reads or writes: a part (a sequence
  record with its \<^verbatim>\<open>id\<close>), a \<^verbatim>\<open>StickyEndFragment\<close> (its \<^verbatim>\<open>id\<close>, the text of its \<^verbatim>\<open>seq\<close> and of
  the two sticky ends of \<^verbatim>\<open>seq\<close>, \<^verbatim>\<open>is_reversed\<close>, \<^verbatim>\<open>original_part\<close>), an \<^verbatim>\<open>AssemblyFlaw\<close>, a
  mix (its name, its \<^verbatim>\<open>fragments_dict\<close> in the order of \<^verbatim>\<open>items()\<close>, its
  \<^verbatim>\<open>connections_graph\<close>) and the assembly itself (\<^verbatim>\<open>self.name\<close>, \<^verbatim>\<open>self.max_constructs\<close>).
\<close>

record part =
  part_id :: string

record sticky_end_fragment =
  fragment_id :: string
  fragment_seq :: string
  seq_left_end :: string
  seq_right_end :: string
  is_reversed :: bool
  original_part :: "part option"

record assembly_flaw =
  flaw_assembly :: "string option"
  message :: string
  data_parts :: "string list"

record 'g mix =
  mix_name :: string
  fragments_dict :: "(nat \<times> sticky_end_fragment) list"
  connections_graph :: 'g

record basic_assembly =
  name :: string
  max_constructs :: int

text \<open>
  Modelled from the spec: \<^verbatim>\<open>AssemblySimulation\<close>, whose class is not part of these sources.
  The specification describes the assembly simulation result as a record set: the
  assembly specification, the produced construct records, the mixes used, and lists of
  errors and warnings. An argument that a constructor call leaves out is empty. It is an
  object with attributes, not a sequence: unpacking it into two names raises
  \<^verbatim>\<open>TypeError\<close>.
\<close>

record 'g assembly_simulation =
  sim_assembly :: "string option"
  construct_records :: "sticky_end_fragment list"
  mixes :: "'g mix list"
  errors :: "assembly_flaw list"
  warnings :: "assembly_flaw list"

text \<open>
  The collaborators, as parameters: the constructor of \<^verbatim>\<open>RestrictionLigationMix\<close>
  (digestion and graph construction), \<^verbatim>\<open>networkx.has_path\<close> and \<^verbatim>\<open>networkx.shortest_path\<close>,
  \<^verbatim>\<open>StickyEndFragment.assemble\<close> with \<^verbatim>\<open>circularize=False\<close>, the comparison \<open>a < b\<close> of two
  fragments that \<^verbatim>\<open>sorted\<close> falls back on when two scores are equal (it may raise), the
  constructor of \<^verbatim>\<open>StickyEndAssemblyMix\<close>, the stream of \<^verbatim>\<open>compute_circular_assemblies\<close> (the
  records it yields when pulled to the end), and three methods of the base class
  \<^verbatim>\<open>Assembly\<close>.
\<close>

record 'g collaborators =
  RestrictionLigationMix :: "part list \<Rightarrow> string list \<Rightarrow> string \<Rightarrow> 'g mix"
  has_path :: "'g \<Rightarrow> nat \<Rightarrow> nat \<Rightarrow> bool"
  shortest_path :: "'g \<Rightarrow> nat \<Rightarrow> nat \<Rightarrow> nat list"
  assemble :: "sticky_end_fragment list \<Rightarrow> sticky_end_fragment"
  fragment_less :: "sticky_end_fragment \<Rightarrow> sticky_end_fragment \<Rightarrow> py_error + bool"
  StickyEndAssemblyMix :: "string \<Rightarrow> sticky_end_fragment list \<Rightarrow> 'g mix"
  compute_circular_assemblies :: "'g mix \<Rightarrow> bool \<Rightarrow> sticky_end_fragment list"
  attribute_ids_to_constructs ::
    "basic_assembly \<Rightarrow> sticky_end_fragment list \<Rightarrow> sticky_end_fragment list"
  detect_constructs_number_error ::
    "basic_assembly \<Rightarrow> nat \<Rightarrow> assembly_flaw list \<Rightarrow> assembly_flaw list"
  detect_max_constructs_reached ::
    "basic_assembly \<Rightarrow> nat \<Rightarrow> assembly_flaw list \<Rightarrow> assembly_flaw list"

subsection \<open>BASICAssembly.simulate_adapters_assembly\<close>

text \<open>
  The function returns a fragment, a pair \<^verbatim>\<open>(mix, error)\<close> or an \<^verbatim>\<open>AssemblySimulation\<close>,
  depending on the path taken.
\<close>

datatype 'g adapter_outcome =
    ReturnsFragment sticky_end_fragment
  | ReturnsPair "'g mix" assembly_flaw
  | ReturnsSimulation "'g assembly_simulation"

text \<open>The first loop: the keys of the fragments with an end longer than 4.\<close>

definition adapter_fragments_of :: "'g mix \<Rightarrow> nat list" where
  "adapter_fragments_of m =
     map fst
       (filter (\<lambda>item. max (length (seq_left_end (snd item)))
                            (length (seq_right_end (snd item))) > 4)
          (fragments_dict m))"

text \<open>\<^verbatim>\<open>[mix.fragments_dict[i] for i in path]\<close>; a missing key raises \<^verbatim>\<open>KeyError\<close>.\<close>

fun lookup_fragments ::
  "(nat \<times> sticky_end_fragment) list \<Rightarrow> nat list \<Rightarrow> py_error + sticky_end_fragment list" where
  "lookup_fragments d [] = Inr []"
| "lookup_fragments d (i # path) =
     (case map_of d i of
        None \<Rightarrow> Inl KeyError
      | Some f \<Rightarrow>
          (case lookup_fragments d path of
             Inl e \<Rightarrow> Inl e
           | Inr fs \<Rightarrow> Inr (f # fs)))"

text \<open>\<^verbatim>\<open>sum([f.is_reversed for f in fragments])\<close>\<close>

definition score_of :: "sticky_end_fragment list \<Rightarrow> nat" where
  "score_of fragments = length (filter is_reversed fragments)"

text \<open>
  The second loop, over the pairs of \<^verbatim>\<open>itertools.product(adapter_fragments, repeat=2)\<close>: the
  list \<^verbatim>\<open>constructs\<close> of the pairs \<^verbatim>\<open>(score, construct)\<close>.
\<close>

fun path_constructs ::
  "'g collaborators \<Rightarrow> 'g mix \<Rightarrow> (nat \<times> nat) list
     \<Rightarrow> py_error + (nat \<times> sticky_end_fragment) list" where
  "path_constructs E m [] = Inr []"
| "path_constructs E m ((start, finish) # rest) =
     (if finish = start then path_constructs E m rest
      else if has_path E (connections_graph m) start finish
      then (case lookup_fragments (fragments_dict m)
                   (shortest_path E (connections_graph m) start finish) of
              Inl e \<Rightarrow> Inl e
            | Inr fragments \<Rightarrow>
                (case path_constructs E m rest of
                   Inl e \<Rightarrow> Inl e
                 | Inr constructs \<Rightarrow>
                     Inr ((score_of fragments, assemble E fragments) # constructs)))
      else path_constructs E m rest)"

text \<open>
  \<^verbatim>\<open>sorted(constructs)[0]\<close> for a list of two pairs \<open>x0\<close>, \<open>x1\<close>: the sort exchanges them
  when \<open>x1 < x0\<close>. Tuples are compared by their scores, and by their fragments when the
  scores are equal.
\<close>

definition first_of_sorted ::
  "'g collaborators \<Rightarrow> nat \<times> sticky_end_fragment \<Rightarrow> nat \<times> sticky_end_fragment
     \<Rightarrow> py_error + (nat \<times> sticky_end_fragment)" where
  "first_of_sorted E x0 x1 =
     (if fst x1 < fst x0 then Inr x1
      else if fst x0 < fst x1 then Inr x0
      else (case fragment_less E (snd x1) (snd x0) of
              Inl e \<Rightarrow> Inl e
            | Inr b \<Rightarrow> Inr (if b then x1 else x0)))"

definition simulate_adapters_assembly ::
  "'g collaborators \<Rightarrow> part list \<Rightarrow> py_error + 'g adapter_outcome" where
  "simulate_adapters_assembly E records =
     (if length records < 2 then Inl IndexError
      else
        let original = records ! 1;
            m = RestrictionLigationMix E records [''BsaI'']
                  (part_id original @ ''_adapters_ligation'');
            adapter_fragments = adapter_fragments_of m
        in if length adapter_fragments \<noteq> 4
           then Inr (ReturnsSimulation
                  \<lparr>sim_assembly = None, construct_records = [], mixes = [m],
                   errors = [\<lparr>flaw_assembly = None,
                              message = ''Two many fragments have a long overhang'',
                              data_parts = map part_id records\<rparr>],
                   warnings = []\<rparr>)
           else
             (case path_constructs E m (List.product adapter_fragments adapter_fragments) of
                Inl e \<Rightarrow> Inl e
              | Inr constructs \<Rightarrow>
                  if length constructs \<noteq> 2
                  then Inr (ReturnsPair m
                         \<lparr>flaw_assembly = None,
                          message = ''Two many possible ligations'',
                          data_parts = map part_id records\<rparr>)
                  else
                    (case first_of_sorted E (constructs ! 0) (constructs ! 1) of
                       Inl e \<Rightarrow> Inl e
                     | Inr best \<Rightarrow>
                         Inr (ReturnsFragment
                           ((snd best)\<lparr>fragment_id := part_id original @ ''_with_adapters'',
                                       original_part := Some original\<rparr>)))))"

subsection \<open>BASICAssembly.simulate\<close>

text \<open>\<^verbatim>\<open>[parts[i : i + 3] for i in range(0, L, 3)]\<close>\<close>

fun part_triplets :: "'a list \<Rightarrow> 'a list list" where
  "part_triplets (a # b # c # rest) = [a, b, c] # part_triplets rest"
| "part_triplets [] = []"
| "part_triplets [a] = [[a]]"
| "part_triplets [a, b] = [[a, b]]"

text \<open>
  The loop over the triplets: the adapted fragments, or the pair \<^verbatim>\<open>(mix, error)\<close> of the
  first triplet that does not give a fragment. A result that is not a fragment is
  unpacked by \<^verbatim>\<open>mix, error = simulation\<close>, which raises \<^verbatim>\<open>TypeError\<close> on an
  \<^verbatim>\<open>AssemblySimulation\<close>.
\<close>

fun adapt_triplets ::
  "'g collaborators \<Rightarrow> part list list
     \<Rightarrow> py_error + (sticky_end_fragment list + 'g mix \<times> assembly_flaw)" where
  "adapt_triplets E [] = Inr (Inl [])"
| "adapt_triplets E (triplet # rest) =
     (case simulate_adapters_assembly E triplet of
        Inl e \<Rightarrow> Inl e
      | Inr (ReturnsFragment f) \<Rightarrow>
          (case adapt_triplets E rest of
             Inl e \<Rightarrow> Inl e
           | Inr (Inl fs) \<Rightarrow> Inr (Inl (f # fs))
           | Inr (Inr failure) \<Rightarrow> Inr (Inr failure))
      | Inr (ReturnsPair m error) \<Rightarrow> Inr (Inr (m, error))
      | Inr (ReturnsSimulation s) \<Rightarrow> Inl TypeError)"

text \<open>
  \<^verbatim>\<open>simulate\<close>; \<open>parts\<close> is the list that \<^verbatim>\<open>sequence_repository.get_records(self.parts)\<close>
  returns. The test \<^verbatim>\<open>if len(errors)\<close> after the loop never holds (nothing is appended to
  \<^verbatim>\<open>errors\<close> before it) and is left out. The list \<^verbatim>\<open>warnings\<close> is not passed to the returned
  simulation. \<^verbatim>\<open>zip(range(self.max_constructs), generator)\<close> pulls at most
  \<^verbatim>\<open>max_constructs\<close> records; \<^verbatim>\<open>sorted\<close> with a key is a stable sort, as \<open>sort_key\<close> is.
\<close>

definition simulate ::
  "'g collaborators \<Rightarrow> basic_assembly \<Rightarrow> part list \<Rightarrow> bool
     \<Rightarrow> py_error + 'g assembly_simulation" where
  "simulate E self parts annotate_parts_homologies =
     (let L = length parts in
      if L mod 3 \<noteq> 0
      then Inr \<lparr>sim_assembly = Some (name self), construct_records = [], mixes = [],
                errors = [\<lparr>flaw_assembly = Some (name self),
                           message = ''The number of parts for BASIC assembly should bea multiple of 3'',
                           data_parts = []\<rparr>],
                warnings = []\<rparr>
      else
        (case adapt_triplets E (part_triplets parts) of
           Inl e \<Rightarrow> Inl e
         | Inr (Inr failure) \<Rightarrow>
             Inr \<lparr>sim_assembly = Some (name self), construct_records = [],
                  mixes = [fst failure], errors = [snd failure], warnings = []\<rparr>
         | Inr (Inl adapted_part_records) \<Rightarrow>
             let m = StickyEndAssemblyMix E (name self @ ''_BASIC_mix'') adapted_part_records;
                 generator = compute_circular_assemblies E m annotate_parts_homologies;
                 sorted_records =
                   sort_key fragment_seq (take (nat (max_constructs self)) generator);
                 records = attribute_ids_to_constructs E self sorted_records;
                 found = length records;
                 errors' = detect_constructs_number_error E self found []
             in Inr \<lparr>sim_assembly = Some (name self), construct_records = records,
                     mixes = [m], errors = errors', warnings = []\<rparr>))"

subsection \<open>An example BASIC assembly\<close>

text \<open>
  Concrete collaborators for the instances below. The triplet of parts \<open>a1\<close>, \<open>p\<close>, \<open>a2\<close>
  is digested into three fragments (0, 1, 2) and their reverse complements (3, 4, 5);
  fragments 0, 2, 3 and 5 carry a six-base adapter end. The graph is represented by the
  table of the shortest paths that exist in it: 0, 1, 2 and its reverse complement
  5, 4, 3. Any other list of parts is not cut (no fragment). Fragments are not comparable
  (the comparison raises), assembling concatenates the sequences, and the top-level
  stream yields three records.
\<close>

definition example_fragment :: "string \<Rightarrow> string \<Rightarrow> string \<Rightarrow> bool \<Rightarrow> sticky_end_fragment" where
  "example_fragment l s r b =
     \<lparr>fragment_id = [], fragment_seq = s, seq_left_end = l, seq_right_end = r,
      is_reversed = b, original_part = None\<rparr>"

type_synonym path_table = "((nat \<times> nat) \<times> nat list) list"

definition example_adapter_mix :: "string \<Rightarrow> path_table mix" where
  "example_adapter_mix nm =
     \<lparr>mix_name = nm,
      fragments_dict =
        [(0, example_fragment ''ACGTAC'' ''TT'' ''GGAG'' False),
         (1, example_fragment ''GGAG'' ''ATGC'' ''CGCT'' False),
         (2, example_fragment ''CGCT'' ''AA'' ''TTGCAA'' False),
         (3, example_fragment ''CTCC'' ''AA'' ''GTACGT'' True),
         (4, example_fragment ''AGCG'' ''GCAT'' ''CTCC'' True),
         (5, example_fragment ''TTGCAA'' ''TT'' ''AGCG'' True)],
      connections_graph = [((0, 2), [0, 1, 2]), ((5, 3), [5, 4, 3])]\<rparr>"

definition example_assemble :: "sticky_end_fragment list \<Rightarrow> sticky_end_fragment" where
  "example_assemble fs =
     \<lparr>fragment_id = [], fragment_seq = concat (map fragment_seq fs),
      seq_left_end = (case fs of [] \<Rightarrow> [] | f # _ \<Rightarrow> seq_left_end f),
      seq_right_end = (case rev fs of [] \<Rightarrow> [] | f # _ \<Rightarrow> seq_right_end f),
      is_reversed = False, original_part = None\<rparr>"

definition example_stream :: "sticky_end_fragment list" where
  "example_stream =
     [example_fragment [] ''GGTT'' [] False,
      example_fragment [] ''AACC'' [] False,
      example_fragment [] ''CCAA'' [] False]"

definition example_collaborators :: "path_table collaborators" where
  "example_collaborators =
     \<lparr>RestrictionLigationMix =
        (\<lambda>records enzymes nm.
           if map part_id records = [''a1'', ''p'', ''a2''] then example_adapter_mix nm
           else \<lparr>mix_name = nm, fragments_dict = [], connections_graph = []\<rparr>),
      has_path = (\<lambda>g start finish. map_of g (start, finish) \<noteq> None),
      shortest_path =
        (\<lambda>g start finish. case map_of g (start, finish) of None \<Rightarrow> [] | Some p \<Rightarrow> p),
      assemble = example_assemble,
      fragment_less = (\<lambda>a b. Inl TypeError),
      StickyEndAssemblyMix =
        (\<lambda>nm fs. \<lparr>mix_name = nm, fragments_dict = zip [0..<length fs] fs,
                   connections_graph = []\<rparr>),
      compute_circular_assemblies = (\<lambda>m annotate. example_stream),
      attribute_ids_to_constructs = (\<lambda>self cs. map (\<lambda>c. c\<lparr>fragment_id := name self\<rparr>) cs),
      detect_constructs_number_error = (\<lambda>self found es. es),
      detect_max_constructs_reached = (\<lambda>self found ws. ws)\<rparr>"

definition example_triplet :: "part list" where
  "example_triplet = [\<lparr>part_id = ''a1''\<rparr>, \<lparr>part_id = ''p''\<rparr>, \<lparr>part_id = ''a2''\<rparr>]"

definition uncut_triplet :: "part list" where
  "uncut_triplet = [\<lparr>part_id = ''x1''\<rparr>, \<lparr>part_id = ''y''\<rparr>, \<lparr>part_id = ''x2''\<rparr>]"

definition example_assembly :: basic_assembly where
  "example_assembly = \<lparr>name = ''asm'', max_constructs = 2\<rparr>"

text \<open>The fragments along the two paths of the example mix.\<close>

definition example_forward_path :: "sticky_end_fragment list" where
  "example_forward_path =
     [example_fragment ''ACGTAC'' ''TT'' ''GGAG'' False,
      example_fragment ''GGAG'' ''ATGC'' ''CGCT'' False,
      example_fragment ''CGCT'' ''AA'' ''TTGCAA'' False]"

definition example_reverse_path :: "sticky_end_fragment list" where
  "example_reverse_path =
     [example_fragment ''TTGCAA'' ''TT'' ''AGCG'' True,
      example_fragment ''AGCG'' ''GCAT'' ''CTCC'' True,
      example_fragment ''CTCC'' ''AA'' ''GTACGT'' True]"

section \<open>Theorems\<close>

subsection \<open>The connections graph\<close>

lemma set_combinations2:
  "set (combinations2 xs) = {(xs ! i, xs ! j) | i j. i < j \<and> j < length xs}"
proof (induction xs)
  case Nil
  then show ?case by simp
next
  case (Cons x xs)
  have "{((x # xs) ! i, (x # xs) ! j) | i j. i < j \<and> j < length (x # xs)}
      = {(x, xs ! j) | j. j < length xs} \<union> {(xs ! i, xs ! j) | i j. i < j \<and> j < length xs}"
    (is "?L = ?A \<union> ?B")
  proof (rule set_eqI, rule iffI)
    fix p assume "p \<in> ?L"
    then obtain i j where p: "p = ((x # xs) ! i, (x # xs) ! j)" and ij: "i < j" "j < length (x # xs)"
      by blast
    from ij obtain j' where j': "j = Suc j'" by (cases j) auto
    show "p \<in> ?A \<union> ?B"
    proof (cases i)
      case 0
      with p j' ij show ?thesis by auto
    next
      case (Suc i')
      with p j' ij have "p = (xs ! i', xs ! j') \<and> i' < j' \<and> j' < length xs" by auto
      then show ?thesis by blast
    qed
  next
    fix p assume "p \<in> ?A \<union> ?B"
    then show "p \<in> ?L"
    proof
      assume "p \<in> ?A"
      then obtain j where "p = (x, xs ! j)" "j < length xs" by blast
      then have "p = ((x # xs) ! 0, (x # xs) ! Suc j) \<and> 0 < Suc j \<and> Suc j < length (x # xs)"
        by simp
      then show ?thesis by blast
    next
      assume "p \<in> ?B"
      then obtain i j where "p = (xs ! i, xs ! j)" "i < j" "j < length xs" by blast
      then have "p = ((x # xs) ! Suc i, (x # xs) ! Suc j) \<and> Suc i < Suc j \<and> Suc j < length (x # xs)"
        by simp
      then show ?thesis by blast
    qed
  qed
  moreover have "set (map (Pair x) xs) = ?A"
    by (auto simp: in_set_conv_nth image_iff)
  ultimately show ?case using Cons.IH by simp
qed

lemma edges_connect_pair:
  "edges (connect_pair clip p g)
     = edges g \<union> {e. (e = p \<or> e = (snd p, fst p)) \<and> clip (fst e) (snd e)}"
  by (cases p) (auto simp: connect_pair_def add_edge_def Let_def)

lemma edges_fold_connect_pair:
  "edges (fold (connect_pair clip) ps g)
     = edges g \<union> {(a, b). ((a, b) \<in> set ps \<or> (b, a) \<in> set ps) \<and> clip a b}"
proof (induction ps arbitrary: g)
  case Nil
  then show ?case by simp
next
  case (Cons p ps)
  show ?case
    by (cases p) (auto simp: Cons.IH edges_connect_pair)
qed

lemma pair_in_combinations2:
  "((a, b) \<in> set (combinations2 xs) \<or> (b, a) \<in> set (combinations2 xs))
     = (\<exists>i j. i \<noteq> j \<and> i < length xs \<and> j < length xs \<and> xs ! i = a \<and> xs ! j = b)"
  unfolding set_combinations2
proof (rule iffI)
  assume "(a, b) \<in> {(xs ! i, xs ! j) |i j. i < j \<and> j < length xs} \<or>
          (b, a) \<in> {(xs ! i, xs ! j) |i j. i < j \<and> j < length xs}"
  then show "\<exists>i j. i \<noteq> j \<and> i < length xs \<and> j < length xs \<and> xs ! i = a \<and> xs ! j = b"
  proof
    assume "(a, b) \<in> {(xs ! i, xs ! j) |i j. i < j \<and> j < length xs}"
    then obtain i j where "a = xs ! i" "b = xs ! j" "i < j" "j < length xs" by blast
    then have "i \<noteq> j \<and> i < length xs \<and> j < length xs \<and> xs ! i = a \<and> xs ! j = b" by simp
    then show ?thesis by blast
  next
    assume "(b, a) \<in> {(xs ! i, xs ! j) |i j. i < j \<and> j < length xs}"
    then obtain i j where "b = xs ! i" "a = xs ! j" "i < j" "j < length xs" by blast
    then have "j \<noteq> i \<and> j < length xs \<and> i < length xs \<and> xs ! j = a \<and> xs ! i = b" by simp
    then show ?thesis by blast
  qed
next
  assume "\<exists>i j. i \<noteq> j \<and> i < length xs \<and> j < length xs \<and> xs ! i = a \<and> xs ! j = b"
  then obtain i j where ij: "i \<noteq> j" "i < length xs" "j < length xs" "xs ! i = a" "xs ! j = b"
    by blast
  show "(a, b) \<in> {(xs ! i, xs ! j) |i j. i < j \<and> j < length xs} \<or>
          (b, a) \<in> {(xs ! i, xs ! j) |i j. i < j \<and> j < length xs}"
  proof (cases "i < j")
    case True
    with ij show ?thesis by blast
  next
    case False
    with ij have "j < i" by simp
    with ij show ?thesis by blast
  qed
qed

lemma edges_compute_connections_graph:
  "edges (compute_connections_graph clip fs rs)
     = {(a, b). clip a b \<and>
          (\<exists>i j. i \<noteq> j \<and> i < length (fs @ rs) \<and> j < length (fs @ rs) \<and>
                 (fs @ rs) ! i = a \<and> (fs @ rs) ! j = b)}"
proof -
  define xs where "xs = fs @ rs"
  have "edges (fold (connect_pair clip) (combinations2 xs) empty_digraph)
     = {(a, b). clip a b \<and>
          (\<exists>i j. i \<noteq> j \<and> i < length xs \<and> j < length xs \<and> xs ! i = a \<and> xs ! j = b)}"
    unfolding edges_fold_connect_pair pair_in_combinations2
    by (auto simp: empty_digraph_def)
  then show ?thesis
    by (simp add: compute_connections_graph_def xs_def)
qed

text \<open>
  C1 (as amended). After graph construction, for fragments \<open>a\<close> and \<open>b\<close> of the forward and
  reverse lists of a mix (each fragment object occurring once in the two lists), the graph
  has the edge \<open>a \<rightarrow> b\<close> exactly when \<open>a\<close> and \<open>b\<close> are different fragments and
  \<^verbatim>\<open>will_clip_in_this_order(a, b)\<close> holds. The loop runs over \<^verbatim>\<open>itertools.combinations\<close>, so the
  self-pair is never examined and no self-loop is ever added.
\<close>

theorem connections_graph_edge_iff:
  assumes "distinct (fs @ rs)" and "a \<in> set (fs @ rs)" and "b \<in> set (fs @ rs)"
  shows "(a, b) \<in> edges (compute_connections_graph clip fs rs) \<longleftrightarrow> a \<noteq> b \<and> clip a b"
proof -
  define xs where "xs = fs @ rs"
  from assms have d: "distinct xs" and a: "a \<in> set xs" and b: "b \<in> set xs"
    by (simp_all add: xs_def)
  from a obtain i where i: "i < length xs" "xs ! i = a"
    by (auto simp: in_set_conv_nth)
  from b obtain j where j: "j < length xs" "xs ! j = b"
    by (auto simp: in_set_conv_nth)
  have "(\<exists>i j. i \<noteq> j \<and> i < length xs \<and> j < length xs \<and> xs ! i = a \<and> xs ! j = b) \<longleftrightarrow> a \<noteq> b"
  proof
    assume "\<exists>i j. i \<noteq> j \<and> i < length xs \<and> j < length xs \<and> xs ! i = a \<and> xs ! j = b"
    then obtain i' j' where "i' \<noteq> j'" "i' < length xs" "j' < length xs"
       "xs ! i' = a" "xs ! j' = b" by blast
    with d show "a \<noteq> b" by (metis nth_eq_iff_index_eq)
  next
    assume "a \<noteq> b"
    with i j have "i \<noteq> j" by auto
    with i j show "\<exists>i j. i \<noteq> j \<and> i < length xs \<and> j < length xs \<and> xs ! i = a \<and> xs ! j = b"
      by blast
  qed
  then show ?thesis
    unfolding edges_compute_connections_graph xs_def [symmetric] by auto
qed


theorem connections_graph_edge_iff_witness:
  "distinct ([0, 2, 4, 6] @ [1, 3, 5, 7 :: frag]) \<and>
   (0 :: frag) \<in> set ([0, 2, 4, 6] @ [1, 3, 5, 7]) \<and>
   (3 :: frag) \<in> set ([0, 2, 4, 6] @ [1, 3, 5, 7]) \<and>
   (0, 3) \<in> edges (compute_connections_graph example_clip [0, 2, 4, 6] [1, 3, 5, 7]) \<and>
   example_clip 0 3"
proof -
  have d: "distinct ([0, 2, 4, 6] @ [1, 3, 5, 7 :: frag])" by simp
  have a: "(0 :: frag) \<in> set ([0, 2, 4, 6] @ [1, 3, 5, 7])" by simp
  have b: "(3 :: frag) \<in> set ([0, 2, 4, 6] @ [1, 3, 5, 7])" by simp
  have c: "example_clip 0 3" by code_simp
  from connections_graph_edge_iff [OF d a b, of example_clip] c d a b show ?thesis
    by simp
qed

text \<open>
  C1 as stated fails on the self-pair: in the example mix fragment 6 ligates to itself
  (its right end AATT equals its left end), and the graph has no edge from 6 to 6.
\<close>

theorem connections_graph_no_self_loop:
  "example_clip 6 6 \<and>
   (6, 6) \<notin> edges (compute_connections_graph example_clip [0, 2, 4, 6] [1, 3, 5, 7])"
  by code_simp

text \<open>
  The graphs of the two example mixes. The cycles used in the instances below are cycles
  of these graphs.
\<close>

lemma example_mix_graph:
  "edges (compute_connections_graph example_clip [0, 2, 4, 6] [1, 3, 5, 7])
     = {(0, 3), (3, 0), (0, 4), (4, 0), (1, 2), (2, 1), (1, 5), (5, 1), (6, 7), (7, 6)}"
  by code_simp

lemma second_mix_graph:
  "edges (compute_connections_graph second_clip [0, 2, 4, 6] [1, 3, 5, 7])
     = {(0, 2), (2, 0), (0, 6), (6, 0), (4, 2), (2, 4), (4, 6), (6, 4),
        (1, 3), (3, 1), (1, 7), (7, 1), (5, 3), (3, 5), (5, 7), (7, 5)}"
  by code_simp

subsection \<open>Canonical cycles\<close>

lemma index_of_less: "x \<in> set xs \<Longrightarrow> index_of x xs < length xs"
  by (induction xs) auto

lemma nth_index_of: "x \<in> set xs \<Longrightarrow> xs ! index_of x xs = x"
  by (induction xs) auto

lemma index_of_le: "index_of x xs \<le> length xs"
  by (induction xs) auto

lemma min_list_in_set: "xs \<noteq> [] \<Longrightarrow> min_list xs \<in> set (xs :: 'a::linorder list)"
  by (simp add: min_list_Min)

lemma min_index_less: "ks \<noteq> [] \<Longrightarrow> min_index ks < length ks"
  by (simp add: min_index_def index_of_less min_list_in_set)

lemma nth_min_index: "ks \<noteq> [] \<Longrightarrow> ks ! min_index ks = Min (set ks)"
  using nth_index_of [OF min_list_in_set, of ks] by (simp add: min_index_def min_list_Min)

lemma drop_take_rotate: "n \<le> length xs \<Longrightarrow> drop n xs @ take n xs = rotate n xs"
  by (cases "n = length xs") (simp_all add: rotate_drop_take)

lemma canon_rotate:
  assumes d: "distinct ks" and ne: "ks \<noteq> []"
  shows "canon (rotate n ks) = canon ks"
proof -
  let ?r = "rotate n ks"
  let ?i = "min_index ks" and ?j = "min_index ?r"
  have rne: "?r \<noteq> []" using ne by simp
  have i: "?i < length ks" using ne by (rule min_index_less)
  have j: "?j < length ks" using min_index_less [OF rne] by simp
  have ci: "canon ks = rotate ?i ks"
    using i by (simp add: canon_def drop_take_rotate)
  have cj: "canon ?r = rotate (?j + n) ks"
    using j by (simp add: canon_def drop_take_rotate rotate_rotate)
  have "?r ! ?j = Min (set ks)"
    using nth_min_index [OF rne] by simp
  then have "ks ! ((n + ?j) mod length ks) = Min (set ks)"
    using j by (simp add: nth_rotate)
  moreover have "ks ! ?i = Min (set ks)" using ne by (rule nth_min_index)
  ultimately have "ks ! ((n + ?j) mod length ks) = ks ! ?i" by simp
  moreover have "(n + ?j) mod length ks < length ks" using ne by simp
  ultimately have "(n + ?j) mod length ks = ?i"
    using d i by (simp add: nth_eq_iff_index_eq)
  then have "rotate (?j + n) ks = rotate ?i ks"
    by (metis add.commute rotate_conv_mod)
  with ci cj show ?thesis by simp
qed

lemma cycle_hash_canon: "cycle_hash H h c = H (concat (canon (map (frag_key h) c)))"
  by (simp add: cycle_hash_def canon_def Let_def)

lemma cycle_hash_rotate:
  assumes "distinct (map (frag_key h) c)"
  shows "cycle_hash H h (rotate n c) = cycle_hash H h c"
proof (cases "c = []")
  case True
  then show ?thesis by simp
next
  case False
  with assms show ?thesis
    by (simp add: cycle_hash_canon rotate_map [symmetric] canon_rotate)
qed

lemma sum_list_map_rotate:
  "sum_list (map f (rotate n xs)) = sum_list (map (f :: 'a \<Rightarrow> nat) xs)"
proof -
  let ?k = "n mod length xs"
  have "sum_list (map f (rotate n xs))
          = sum_list (map f (drop ?k xs)) + sum_list (map f (take ?k xs))"
    by (simp add: rotate_drop_take)
  also have "\<dots> = sum_list (map f (take ?k xs @ drop ?k xs))"
    by (simp only: map_append sum_list_append add.commute)
  finally show ?thesis by simp
qed

lemma total_length_rotate: "total_length h (rotate n c) = total_length h c"
  by (simp add: total_length_def sum_list_map_rotate)

lemma reverse_length_rotate: "reverse_length h (rotate n c) = reverse_length h c"
  by (simp add: reverse_length_def sum_list_map_filter' sum_list_map_rotate)

lemma total_length_reverse_complement:
  "twins_ok h c \<Longrightarrow> total_length h (reverse_complement h c) = total_length h c"
  by (induction c) (auto simp: total_length_def reverse_complement_def twins_ok_def twin_ok_def)

lemma reverse_length_reverse_complement:
  "twins_ok h c \<Longrightarrow>
   reverse_length h (reverse_complement h c) + reverse_length h c = total_length h c"
  by (induction c) (auto simp: total_length_def reverse_length_def reverse_complement_def twins_ok_def twin_ok_def)


lemma twins_ok_reverse_complement:
  "twins_ok h c \<Longrightarrow> twins_ok h (reverse_complement h c)"
  by (auto simp: reverse_complement_def twins_ok_def twin_ok_def list_all_iff)

lemma twins_ok_rotate: "twins_ok h (rotate n c) = twins_ok h c"
  by (simp add: twins_ok_def list_all_iff)


lemma standardized_rotate:
  assumes "total_length h c \<noteq> 0"
  shows "\<exists>n. standardized h c =
           Inr (rotate n (if total_length h c < 2 * reverse_length h c
                          then reverse_complement h c else c))"
proof -
  let ?std = "if total_length h c < 2 * reverse_length h c then reverse_complement h c else c"
  let ?i = "min_index (map (frag_key h) c)"
  from assms have ne: "c \<noteq> []" by (auto simp: total_length_def)
  have len: "length ?std = length c" by (simp add: reverse_complement_def)
  have "?i \<le> length ?std"
    unfolding len min_index_def using index_of_le [of _ "map (frag_key h) c"] by simp
  then have rot: "drop ?i ?std @ take ?i ?std = rotate ?i ?std"
    by (rule drop_take_rotate)
  have "?std \<noteq> []" using ne len by (metis length_0_conv)
  then have rne: "rotate ?i ?std \<noteq> []" by simp
  have "standardized h c = FragmentsCycle (drop ?i ?std @ take ?i ?std)"
    using assms by (simp add: standardized_def Let_def)
  also have "\<dots> = FragmentsCycle (rotate ?i ?std)"
    by (simp only: rot)
  also have "\<dots> = Inr (rotate ?i ?std)"
    using rne by (simp only: FragmentsCycle_def if_False)
  finally show ?thesis ..
qed




text \<open>
  C4. \<^verbatim>\<open>standardized\<close> is not idempotent: the all-reverse cycle \<open>[1, 5]\<close> is replaced by its
  reverse complement \<open>[4, 0]\<close> and rotated by the index of the smallest key of \<open>[1, 5]\<close>
  (index 0), which leaves the larger key of fragment 4 first; standardizing \<open>[4, 0]\<close> again
  rotates it to \<open>[0, 4]\<close>.
\<close>

theorem standardized_not_idempotent:
  "standardized example_store [1, 5] = Inr [4, 0] \<and>
   standardized example_store [4, 0] = Inr [0, 4]"
  by code_simp

subsection \<open>The deterministic stream\<close>

lemma generator_props:
  "circular_fragments_generator H h fls seen cs = (ys, e) \<Longrightarrow>
   distinct (map (cycle_hash H h) ys) \<and>
   (\<forall>y\<in>set ys. cycle_hash H h y \<notin> seen \<and> (\<exists>c\<in>set cs. standardized_cycle h c = Inr y))"
proof (induction cs arbitrary: seen ys e)
  case Nil
  then show ?case by simp
next
  case (Cons c cs)
  show ?case
  proof (cases "standardized_cycle h c")
    case (Inl err)
    with Cons.prems show ?thesis by simp
  next
    case (Inr cyc)
    show ?thesis
    proof (cases "cycle_hash H h cyc \<in> seen")
      case True
      with Inr Cons.prems have "circular_fragments_generator H h fls seen cs = (ys, e)"
        by simp
      from Cons.IH [OF this] show ?thesis by auto
    next
      case False
      let ?seen = "insert (cycle_hash H h cyc) seen"
      show ?thesis
      proof (cases "passes_filters fls cyc")
        case True
        obtain zs e' where g: "circular_fragments_generator H h fls ?seen cs = (zs, e')"
          by (cases "circular_fragments_generator H h fls ?seen cs")
        with Inr False True Cons.prems have ys: "ys = cyc # zs" by simp
        from Cons.IH [OF g] Inr False show ?thesis
          unfolding ys by auto
      next
        case nf: False
        with Inr False Cons.prems have "circular_fragments_generator H h fls ?seen cs = (ys, e)"
          by simp
        from Cons.IH [OF this] show ?thesis by auto
      qed
    qed
  qed
qed

lemma standardized_oriented:
  assumes tw: "twins_ok h c" and s: "standardized h c = Inr y"
  shows "2 * reverse_length h y \<le> total_length h y \<and> total_length h y \<noteq> 0 \<and> twins_ok h y"
proof -
  let ?rc = "reverse_complement h c"
  from s have nz: "total_length h c \<noteq> 0"
    by (auto simp: standardized_def split: if_splits)
  have T: "total_length h ?rc = total_length h c"
    using tw by (rule total_length_reverse_complement)
  have R: "reverse_length h ?rc + reverse_length h c = total_length h c"
    using tw by (rule reverse_length_reverse_complement)
  from standardized_rotate [OF nz] s obtain n where
    y: "y = rotate n (if total_length h c < 2 * reverse_length h c then ?rc else c)"
    by auto
  show ?thesis
  proof (cases "total_length h c < 2 * reverse_length h c")
    case True
    with y have "y = rotate n ?rc" by simp
    with True T R nz tw show ?thesis
      by (simp add: total_length_rotate reverse_length_rotate twins_ok_rotate
          twins_ok_reverse_complement)
  next
    case False
    with y have "y = rotate n c" by simp
    with False nz tw show ?thesis
      by (simp add: total_length_rotate reverse_length_rotate twins_ok_rotate)
  qed
qed

text \<open>
  C2 (as amended). With \<^verbatim>\<open>randomize=False\<close>, over the cycles of a mix (every fragment
  with its twin), two distinct yielded cycles never have the same hash. Hence the later
  one is not a rotation of the earlier one when the keys of the earlier one's fragments
  are pairwise distinct, and it is not a rotation of the reverse complement of the
  earlier one unless the reverse-flagged length of that cycle is exactly half of its
  total length.
\<close>

theorem yielded_cycles_inequivalent:
  assumes tw: "list_all (twins_ok h) cycles"
    and gen: "compute_circular_fragments_sets H h fls cycles = (ys, e)"
    and ij: "i < j" "j < length ys"
  shows "cycle_hash H h (ys ! i) \<noteq> cycle_hash H h (ys ! j) \<and>
         (distinct (map (frag_key h) (ys ! i)) \<longrightarrow> (\<forall>n. ys ! j \<noteq> rotate n (ys ! i))) \<and>
         (2 * reverse_length h (ys ! i) \<noteq> total_length h (ys ! i) \<longrightarrow>
            (\<forall>n. ys ! j \<noteq> rotate n (reverse_complement h (ys ! i))))"
proof -
  from gen have g: "circular_fragments_generator H h fls {} cycles = (ys, e)"
    by (simp add: compute_circular_fragments_sets_def)
  note props = generator_props [OF g]
  from props have d: "distinct (map (cycle_hash H h) ys)" by simp
  from ij have i: "i < length ys" by simp
  have ne: "cycle_hash H h (ys ! i) \<noteq> cycle_hash H h (ys ! j)"
    using d ij i by (simp add: distinct_conv_nth)
  have oriented: "2 * reverse_length h y \<le> total_length h y \<and> total_length h y \<noteq> 0 \<and> twins_ok h y"
    if "y \<in> set ys" for y
  proof -
    from props that obtain c where c: "c \<in> set cycles" "standardized_cycle h c = Inr y"
      by blast
    from c(1) tw have "twins_ok h c" by (simp add: list_all_iff)
    moreover from c(2) have "standardized h c = Inr y"
      by (auto simp: standardized_cycle_def FragmentsCycle_def split: if_splits)
    ultimately show ?thesis by (rule standardized_oriented)
  qed
  have oi: "2 * reverse_length h (ys ! i) \<le> total_length h (ys ! i)" "twins_ok h (ys ! i)"
    using oriented [of "ys ! i"] i by simp_all
  have oj: "2 * reverse_length h (ys ! j) \<le> total_length h (ys ! j)"
    using oriented [of "ys ! j"] ij by simp
  have rot: "ys ! j \<noteq> rotate n (ys ! i)" if "distinct (map (frag_key h) (ys ! i))" for n
  proof
    assume "ys ! j = rotate n (ys ! i)"
    with that have "cycle_hash H h (ys ! j) = cycle_hash H h (ys ! i)"
      by (simp add: cycle_hash_rotate)
    with ne show False by simp
  qed
  have rc: "ys ! j \<noteq> rotate n (reverse_complement h (ys ! i))"
    if "2 * reverse_length h (ys ! i) \<noteq> total_length h (ys ! i)" for n
  proof
    assume eq: "ys ! j = rotate n (reverse_complement h (ys ! i))"
    have "total_length h (ys ! j) = total_length h (ys ! i)"
      using oi(2) by (simp add: eq total_length_rotate total_length_reverse_complement)
    moreover have "reverse_length h (ys ! j) + reverse_length h (ys ! i) = total_length h (ys ! i)"
      using reverse_length_reverse_complement [OF oi(2)] by (simp add: eq reverse_length_rotate)
    ultimately show False using oi(1) oj that by simp
  qed
  from ne rot rc show ?thesis by blast
qed


theorem yielded_cycles_inequivalent_witness:
  "list_all (twins_ok example_store) [[0, 4], [1, 5], [0, 3]] \<and>
   compute_circular_fragments_sets id example_store [] [[0, 4], [1, 5], [0, 3]]
     = ([[0, 4], [0, 3]], StopIteration) \<and>
   cycle_hash id example_store [0, 4] \<noteq> cycle_hash id example_store [0, 3] \<and>
   distinct (map (frag_key example_store) [0, 4]) \<and>
   (\<forall>n. [0, 3 :: frag] \<noteq> rotate n [0, 4]) \<and>
   2 * reverse_length example_store [0, 4] \<noteq> total_length example_store [0, 4] \<and>
   (\<forall>n. [0, 3] \<noteq> rotate n (reverse_complement example_store [0, 4]))"
proof -
  have tw: "list_all (twins_ok example_store) [[0, 4], [1, 5], [0, 3]]" by code_simp
  have gen: "compute_circular_fragments_sets id example_store [] [[0, 4], [1, 5], [0, 3]]
     = ([[0, 4], [0, 3]], StopIteration)" by code_simp
  have d: "distinct (map (frag_key example_store) [0, 4])" by code_simp
  have nt: "2 * reverse_length example_store [0, 4] \<noteq> total_length example_store [0, 4]"
    by code_simp
  have ij: "(0 :: nat) < 1" "1 < length [[0, 4], [0, 3 :: frag]]" by simp_all
  from yielded_cycles_inequivalent [OF tw gen ij] d nt tw gen show ?thesis
    by simp
qed

text \<open>
  C2 as stated fails in two ways. At a tie: the example mix has the cycles \<open>[0, 3]\<close> and
  \<open>[1, 2]\<close>, each a rotation of the reverse complement of the other and each with one
  forward and one reverse fragment of the same length; neither is flipped, their hashes
  differ, and both are yielded. With equal keys: in the second mix the fragments 0 and 4
  have the same key, the smallest of the cycle \<open>[0, 2, 4, 6]\<close>, which is not at a tie.
  \<^verbatim>\<open>__hash__\<close> rotates to the first occurrence of the smallest key, so the hash of a
  rotation that starts at fragment 4 differs from the hash of the one that starts at
  fragment 0. The cycle \<open>[1, 7, 5, 3]\<close> is a rotation of the reverse complement of
  \<open>[0, 2, 4, 6]\<close>; it is flipped to \<open>[2, 4, 6, 0]\<close> and rotated to \<open>[4, 6, 0, 2]\<close> (the index
  taken from the unflipped list is here also the index of the smallest key of the flipped
  list). Both \<open>[0, 2, 4, 6]\<close> and its rotation \<open>[4, 6, 0, 2]\<close> are yielded.
\<close>

theorem yielded_cycles_equivalent_at_tie:
  "compute_circular_fragments_sets id example_store []
       [[0, 3], [0, 4], [1, 2], [1, 5], [6, 7]]
     = ([[0, 3], [0, 4], [1, 2], [6, 7]], StopIteration) \<and>
   [1, 2] = rotate 1 (reverse_complement example_store [0, 3]) \<and>
   compute_circular_fragments_sets id second_store []
       [[0, 2, 4, 6], [1, 7, 5, 3], [0, 2], [0, 6], [0, 6, 4, 2], [4, 2], [4, 6],
        [1, 3], [1, 7], [1, 3, 5, 7], [5, 3], [5, 7]]
     = ([[0, 2, 4, 6], [4, 6, 0, 2], [0, 2], [0, 6]], StopIteration) \<and>
   [4, 6, 0, 2] = rotate 2 [0, 2, 4, 6 :: frag] \<and>
   \<not> distinct (map (frag_key second_store) [0, 2, 4, 6]) \<and>
   2 * reverse_length second_store [0, 2, 4, 6] \<noteq> total_length second_store [0, 2, 4, 6] \<and>
   min_index (map (frag_key second_store) [1, 7, 5, 3])
     = min_index (map (frag_key second_store) (reverse_complement second_store [1, 7, 5, 3]))"
  by code_simp

subsection \<open>The randomized stream\<close>

lemma standardized_cycle_not_staled:
  "standardized_cycle h c \<noteq> Inl RandomizationStaled"
  by (simp add: standardized_cycle_def standardized_def FragmentsCycle_def Let_def)

lemma run_pass_staled_iff:
  "(run_pass H h fls cutoff seen k cs = Failed RandomizationStaled) =
   (0 < seen_in_pass H h fls seen cs \<and> cutoff < k + int (seen_in_pass H h fls seen cs))"
proof (induction cs arbitrary: seen k)
  case Nil
  then show ?case by simp
next
  case (Cons c cs)
  show ?case
  proof (cases "standardized_cycle h c")
    case (Inl e)
    with standardized_cycle_not_staled [of h c] show ?thesis by simp
  next
    case (Inr cyc)
    show ?thesis
    proof (cases "cycle_hash H h cyc \<in> seen")
      case True
      show ?thesis
      proof (cases "k + 1 > cutoff")
        case over: True
        with Inr True show ?thesis by simp
      next
        case False
        with Inr True Cons.IH [of seen "k + 1"] show ?thesis by auto
      qed
    next
      case False
      with Inr Cons.IH [of "insert (cycle_hash H h cyc) seen" k] show ?thesis by simp
    qed
  qed
qed

lemma generator_end:
  "random_fragments_generator H h fls cutoff seen ps = (ys, e) \<Longrightarrow>
   length ys \<le> length ps \<and>
   (length ys = length ps \<longrightarrow> e = Pending) \<and>
   (length ys < length ps \<longrightarrow>
      (case run_pass H h fls cutoff (seen_at_last_pass H h fls cutoff seen ps) 0
              (ps ! length ys) of
         Yield cyc seen' \<Rightarrow> False
       | Exhausted \<Rightarrow> e = StopIteration
       | Failed err \<Rightarrow> e = Raised err))"
proof (induction ps arbitrary: seen ys e)
  case Nil
  then show ?case by simp
next
  case (Cons p ps)
  show ?case
  proof (cases "run_pass H h fls cutoff seen 0 p")
    case (Yield cyc seen')
    obtain zs e' where g: "random_fragments_generator H h fls cutoff seen' ps = (zs, e')"
      by (cases "random_fragments_generator H h fls cutoff seen' ps")
    with Yield Cons.prems have ys: "ys = cyc # zs" and e: "e' = e"
      by simp_all
    from g e have "random_fragments_generator H h fls cutoff seen' ps = (zs, e)"
      by simp
    from Cons.IH [OF this] Yield show ?thesis
      by (simp add: ys)
  next
    case Exhausted
    with Cons.prems show ?thesis by simp
  next
    case (Failed err)
    with Cons.prems show ?thesis by simp
  qed
qed

text \<open>
  C5 (as amended). In randomized mode every pass before the last has yielded one cycle,
  and the last pass (number \<open>length ys\<close>) starts with the counter at zero. The stream
  ends with the randomization-staled error exactly when that pass meets, before it
  yields, strictly more than \<^verbatim>\<open>randomization_staling_cutoff\<close> already-seen cycles (at least
  one when the cutoff is negative). The count \<open>seen_in_pass\<close> runs over the whole pass up
  to its yield: every already-seen cycle counts, also when new canonical cycles that a
  fragment-set filter rejects lie between them, since such a cycle does not reset the
  counter.
\<close>

theorem staled_exactly_after_cutoff:
  assumes gen: "random_fragments_generator H h fls cutoff seen ps = (ys, e)"
  shows "(e = Raised RandomizationStaled) =
         (length ys < length ps \<and>
          max cutoff 0 < int (seen_in_pass H h fls (seen_at_last_pass H h fls cutoff seen ps)
                                (ps ! length ys)))"
proof (cases "length ys < length ps")
  case False
  with generator_end [OF gen] have "e = Pending" by simp
  with False show ?thesis by simp
next
  case True
  let ?r = "run_pass H h fls cutoff (seen_at_last_pass H h fls cutoff seen ps) 0 (ps ! length ys)"
  from True generator_end [OF gen]
  have "(e = Raised RandomizationStaled) = (?r = Failed RandomizationStaled)"
    by (cases ?r) auto
  also have "\<dots> = (max cutoff 0 <
      int (seen_in_pass H h fls (seen_at_last_pass H h fls cutoff seen ps) (ps ! length ys)))"
    unfolding run_pass_staled_iff by auto
  finally show ?thesis using True by simp
qed

theorem staled_exactly_after_cutoff_witness:
  "random_fragments_generator id example_store [example_filter] 1 {}
       [[[0, 4], [0, 3], [1, 5], [1, 2]], [[0, 4], [0, 3], [1, 5], [1, 2]]]
     = ([[0, 4]], Raised RandomizationStaled) \<and>
   length [[0, 4 :: frag]]
     < length [[[0, 4], [0, 3], [1, 5], [1, 2]], [[0, 4], [0, 3], [1, 5], [1, 2 :: frag]]] \<and>
   max 1 0 < int (seen_in_pass id example_store [example_filter]
       (seen_at_last_pass id example_store [example_filter] 1 {}
          [[[0, 4], [0, 3], [1, 5], [1, 2]], [[0, 4], [0, 3], [1, 5], [1, 2]]])
       ([[[0, 4], [0, 3], [1, 5], [1, 2]], [[0, 4], [0, 3], [1, 5], [1, 2]]]
          ! length [[0, 4 :: frag]]))"
proof -
  have gen: "random_fragments_generator id example_store [example_filter] 1 {}
       [[[0, 4], [0, 3], [1, 5], [1, 2]], [[0, 4], [0, 3], [1, 5], [1, 2]]]
     = ([[0, 4]], Raised RandomizationStaled)"
    by code_simp
  from staled_exactly_after_cutoff [OF gen] gen show ?thesis
    by simp
qed

text \<open>
  C5 as stated fails when a filter rejects a new canonical cycle. With a cutoff of 1 and
  the filter that rejects fragment 3, the second pass meets \<open>[0, 4]\<close> (already seen),
  \<open>[0, 3]\<close> (new, rejected by the filter) and \<open>[1, 5]\<close> (the reverse complement of
  \<open>[0, 4]\<close>, already seen): the two duplicates are separated by a new canonical cycle, and
  the stream stales although \<open>[1, 2]\<close> was still to be found. With the counter reset on
  every new canonical cycle the same pass yields.
\<close>

theorem staled_across_rejected_cycle:
  "random_fragments_generator id example_store [example_filter] 1 {}
       [[[0, 4], [0, 3], [1, 5], [1, 2]], [[0, 4], [0, 3], [1, 5], [1, 2]]]
     = ([[0, 4]], Raised RandomizationStaled) \<and>
   seen_at_last_pass id example_store [example_filter] 1 {}
       [[[0, 4], [0, 3], [1, 5], [1, 2]], [[0, 4], [0, 3], [1, 5], [1, 2]]]
     = {cycle_hash id example_store [0, 4]} \<and>
   cycle_hash id example_store [0, 3] \<noteq> cycle_hash id example_store [0, 4] \<and>
   \<not> passes_filters [example_filter] [0, 3] \<and>
   spec_run_pass id example_store [example_filter] 1 {cycle_hash id example_store [0, 4]} 0
       [[0, 4], [0, 3], [1, 5], [1, 2]]
     \<noteq> Failed RandomizationStaled"
  by code_simp

subsection \<open>Equivalence of cycles\<close>

text \<open>
  C10. For cycles \<open>c\<close> and \<open>other\<close> whose hashes differ,
  \<^verbatim>\<open>c.is_equivalent_to(other, consider_reverse=True)\<close> does not depend on \<open>other\<close>: it is true
  exactly when the hash of \<open>c\<close> equals the hash of \<open>c\<close>'s own reverse complement.
\<close>

theorem is_equivalent_to_ignores_other:
  "cycle_hash H h c \<noteq> cycle_hash H h other \<Longrightarrow>
   is_equivalent_to H h c other True
     = (cycle_hash H h c = cycle_hash H h (reverse_complement h c))"
  by (simp add: is_equivalent_to_def)

theorem is_equivalent_to_ignores_other_witness:
  "cycle_hash id example_store [0, 4] \<noteq> cycle_hash id example_store [5, 1] \<and>
   is_equivalent_to id example_store [0, 4] [5, 1] True
     = (cycle_hash id example_store [0, 4]
          = cycle_hash id example_store (reverse_complement example_store [0, 4]))"
proof -
  have ne: "cycle_hash id example_store [0, 4] \<noteq> cycle_hash id example_store [5, 1]"
    by code_simp
  from is_equivalent_to_ignores_other [OF ne] ne show ?thesis
    by simp
qed

subsection \<open>BASIC assembly: the shape of the input\<close>

text \<open>
  C7. When the number of parts is not a multiple of three, \<^verbatim>\<open>simulate\<close> returns at once a
  simulation whose only error is the flaw saying that the number of parts should be a
  multiple of 3, with no mix and no construct record. The result does not depend on the
  collaborators: no mix is built.
\<close>

theorem simulate_rejects_part_count:
  "length parts mod 3 \<noteq> 0 \<Longrightarrow>
   simulate E self parts annotate_parts_homologies =
     Inr \<lparr>sim_assembly = Some (name self), construct_records = [], mixes = [],
          errors = [\<lparr>flaw_assembly = Some (name self),
                     message = ''The number of parts for BASIC assembly should bea multiple of 3'',
                     data_parts = []\<rparr>],
          warnings = []\<rparr>"
  by (simp add: simulate_def)

theorem simulate_rejects_part_count_witness:
  "length (take 2 example_triplet) mod 3 \<noteq> 0 \<and>
   simulate example_collaborators example_assembly (take 2 example_triplet) True =
     Inr \<lparr>sim_assembly = Some (name example_assembly), construct_records = [], mixes = [],
          errors = [\<lparr>flaw_assembly = Some (name example_assembly),
                     message = ''The number of parts for BASIC assembly should bea multiple of 3'',
                     data_parts = []\<rparr>],
          warnings = []\<rparr>"
proof -
  have n: "length (take 2 example_triplet) mod 3 \<noteq> 0"
    by (simp add: example_triplet_def)
  from simulate_rejects_part_count [OF n] n show ?thesis
    by blast
qed

subsection \<open>BASIC assembly: the adapter sub-stage\<close>

lemma part_triplets_append:
  "length pre mod 3 = 0 \<Longrightarrow> part_triplets (pre @ xs) = part_triplets pre @ part_triplets xs"
proof (induction pre rule: part_triplets.induct)
  case (1 a b c rest)
  then have "length rest mod 3 = 0" by (simp add: mod_Suc split: if_splits)
  with 1 show ?case by simp
qed simp_all

lemma part_triplets_three: "length t = 3 \<Longrightarrow> part_triplets (t @ rest) = t # part_triplets rest"
proof -
  assume "length t = 3"
  then obtain a b c where "t = [a, b, c]"
    by (metis (no_types, lifting) length_0_conv length_Suc_conv numeral_3_eq_3)
  then show ?thesis by simp
qed

lemma adapt_triplets_append:
  "adapt_triplets E ts = Inr (Inl fs) \<Longrightarrow>
   adapt_triplets E (ts @ us) =
     (case adapt_triplets E us of
        Inl e \<Rightarrow> Inl e
      | Inr (Inl gs) \<Rightarrow> Inr (Inl (fs @ gs))
      | Inr (Inr failure) \<Rightarrow> Inr (Inr failure))"
proof (induction ts arbitrary: fs)
  case Nil
  then show ?case by (auto split: sum.splits)
next
  case (Cons t ts)
  then show ?case
    by (auto split: sum.splits adapter_outcome.splits)
qed

lemma simulate_adapters_assembly_long_overhangs:
  assumes "2 \<le> length records"
    and "length (adapter_fragments_of (RestrictionLigationMix E records [''BsaI'']
                   (part_id (records ! 1) @ ''_adapters_ligation''))) \<noteq> 4"
  shows "simulate_adapters_assembly E records =
     Inr (ReturnsSimulation
       \<lparr>sim_assembly = None, construct_records = [],
        mixes = [RestrictionLigationMix E records [''BsaI'']
                   (part_id (records ! 1) @ ''_adapters_ligation'')],
        errors = [\<lparr>flaw_assembly = None,
                   message = ''Two many fragments have a long overhang'',
                   data_parts = map part_id records\<rparr>],
        warnings = []\<rparr>)"
  using assms by (simp add: simulate_adapters_assembly_def Let_def)

text \<open>
  C6. What the code does when a triplet does not have exactly 4 fragments with a long
  overhang (the triplets before it having given their adapted fragments): the sub-stage
  returns an \<^verbatim>\<open>AssemblySimulation\<close> that carries the flaw and the sub-mix, not a pair
  \<^verbatim>\<open>(mix, error)\<close>; \<^verbatim>\<open>simulate\<close> then unpacks it as a pair and raises \<^verbatim>\<open>TypeError\<close>. No
  simulation is returned.
\<close>

theorem simulate_raises_on_long_overhang_count:
  assumes pre: "length pre mod 3 = 0"
    and adapted: "adapt_triplets E (part_triplets pre) = Inr (Inl fs)"
    and t: "length triplet = 3"
    and rest: "length rest mod 3 = 0"
    and n: "length (adapter_fragments_of (RestrictionLigationMix E triplet [''BsaI'']
                   (part_id (triplet ! 1) @ ''_adapters_ligation''))) \<noteq> 4"
  shows "simulate_adapters_assembly E triplet =
           Inr (ReturnsSimulation
             \<lparr>sim_assembly = None, construct_records = [],
              mixes = [RestrictionLigationMix E triplet [''BsaI'']
                         (part_id (triplet ! 1) @ ''_adapters_ligation'')],
              errors = [\<lparr>flaw_assembly = None,
                         message = ''Two many fragments have a long overhang'',
                         data_parts = map part_id triplet\<rparr>],
              warnings = []\<rparr>) \<and>
         simulate E self (pre @ triplet @ rest) annotate_parts_homologies = Inl TypeError"
proof -
  have "length (pre @ triplet @ rest) = length pre + 3 + length rest"
    using t by simp
  then have len: "length (pre @ triplet @ rest) mod 3 = 0"
    using pre rest by presburger
  have tr: "part_triplets (pre @ triplet @ rest)
              = part_triplets pre @ triplet # part_triplets rest"
    using part_triplets_append [OF pre, of "triplet @ rest"]
      part_triplets_three [OF t, of rest] by simp
  from t have "2 \<le> length triplet" by simp
  note sub = simulate_adapters_assembly_long_overhangs [OF this n]
  then have "adapt_triplets E (triplet # part_triplets rest) = Inl TypeError"
    by simp
  with adapt_triplets_append [OF adapted, of "triplet # part_triplets rest"]
  have "adapt_triplets E (part_triplets (pre @ triplet @ rest)) = Inl TypeError"
    by (simp add: tr)
  with len have "simulate E self (pre @ triplet @ rest) annotate_parts_homologies = Inl TypeError"
    by (simp add: simulate_def)
  with sub show ?thesis by simp
qed

theorem simulate_raises_on_long_overhang_count_witness:
  "length example_triplet mod 3 = 0 \<and>
   (\<exists>fs. adapt_triplets example_collaborators (part_triplets example_triplet) = Inr (Inl fs)) \<and>
   length uncut_triplet = 3 \<and>
   length (adapter_fragments_of (RestrictionLigationMix example_collaborators uncut_triplet
      [''BsaI''] (part_id (uncut_triplet ! 1) @ ''_adapters_ligation''))) \<noteq> 4 \<and>
   simulate example_collaborators example_assembly (example_triplet @ uncut_triplet @ []) True
     = Inl TypeError"
proof -
  have pre: "length example_triplet mod 3 = 0" by code_simp
  have "\<not> isl (adapt_triplets example_collaborators (part_triplets example_triplet)) \<and>
        isl (projr (adapt_triplets example_collaborators (part_triplets example_triplet)))"
    by code_simp
  then have adapted: "adapt_triplets example_collaborators (part_triplets example_triplet)
      = Inr (Inl (projl (projr
          (adapt_triplets example_collaborators (part_triplets example_triplet)))))"
    by simp
  have t: "length uncut_triplet = 3" by code_simp
  have rest: "length ([] :: part list) mod 3 = 0" by simp
  have n: "length (adapter_fragments_of (RestrictionLigationMix example_collaborators
      uncut_triplet [''BsaI''] (part_id (uncut_triplet ! 1) @ ''_adapters_ligation''))) \<noteq> 4"
    by code_simp
  from simulate_raises_on_long_overhang_count [OF pre adapted t rest n, of example_assembly True]
    pre adapted t n
  show ?thesis by blast
qed

lemma path_constructs_entry:
  "path_constructs E m ps = Inr constructs \<Longrightarrow> (s, c) \<in> set constructs \<Longrightarrow>
   \<exists>start finish fragments.
     (start, finish) \<in> set ps \<and> finish \<noteq> start \<and>
     has_path E (connections_graph m) start finish \<and>
     lookup_fragments (fragments_dict m) (shortest_path E (connections_graph m) start finish)
       = Inr fragments \<and>
     s = score_of fragments \<and> c = assemble E fragments"
proof (induction E m ps arbitrary: constructs rule: path_constructs.induct)
  case (1 E m)
  then show ?case by simp
next
  case (2 E m start finish rest)
  show ?case
  proof (cases "finish \<noteq> start \<and> has_path E (connections_graph m) start finish")
    case False
    with "2.prems" have "path_constructs E m rest = Inr constructs"
      by (auto split: if_splits)
    with "2.IH"(1,3) "2.prems"(2) False show ?thesis
      by (cases "finish = start") fastforce+
  next
    case True
    then obtain fragments cs where
      l: "lookup_fragments (fragments_dict m)
            (shortest_path E (connections_graph m) start finish) = Inr fragments"
      and r: "path_constructs E m rest = Inr cs"
      and c: "constructs = (score_of fragments, assemble E fragments) # cs"
      using "2.prems"(1) by (auto split: sum.splits)
    show ?thesis
    proof (cases "(s, c) = (score_of fragments, assemble E fragments)")
      case eq: True
      with True l show ?thesis by fastforce
    next
      case False
      with c "2.prems"(2) have "(s, c) \<in> set cs" by auto
      from "2.IH"(2) [OF _ _ l r this] True show ?thesis by fastforce
    qed
  qed
qed

text \<open>
  C8. When the sub-stage has its 4 adapter fragments and finds exactly two complete paths
  between distinct adapter fragments, with \<open>s0\<close> and \<open>s1\<close> reverse-oriented fragments:
  every adapted fragment it returns is the assembly (relabelled with the id and the
  original part) of the fragments along a shortest path between two distinct adapter
  fragments whose count of reverse-oriented fragments is the minimum of \<open>s0\<close> and \<open>s1\<close>;
  and it does return a fragment when the two counts differ. (When they are equal,
  \<^verbatim>\<open>sorted\<close> compares the two fragments, which may raise.)
\<close>

theorem adapted_fragment_has_fewest_reversed:
  assumes len: "2 \<le> length records"
    and m: "m = RestrictionLigationMix E records [''BsaI'']
                  (part_id (records ! 1) @ ''_adapters_ligation'')"
    and four: "length (adapter_fragments_of m) = 4"
    and two: "path_constructs E m
                (List.product (adapter_fragments_of m) (adapter_fragments_of m))
              = Inr [(s0, c0), (s1, c1)]"
  shows "(s0 \<noteq> s1 \<longrightarrow> (\<exists>f. simulate_adapters_assembly E records = Inr (ReturnsFragment f))) \<and>
         (\<forall>f. simulate_adapters_assembly E records = Inr (ReturnsFragment f) \<longrightarrow>
            (\<exists>start finish fragments.
               start \<in> set (adapter_fragments_of m) \<and> finish \<in> set (adapter_fragments_of m) \<and>
               finish \<noteq> start \<and>
               has_path E (connections_graph m) start finish \<and>
               lookup_fragments (fragments_dict m)
                   (shortest_path E (connections_graph m) start finish) = Inr fragments \<and>
               score_of fragments = min s0 s1 \<and>
               f = (assemble E fragments)
                     \<lparr>fragment_id := part_id (records ! 1) @ ''_with_adapters'',
                      original_part := Some (records ! 1)\<rparr>))"
proof -
  let ?relabel = "\<lambda>c. c\<lparr>fragment_id := part_id (records ! 1) @ ''_with_adapters'',
                         original_part := Some (records ! 1)\<rparr>"
  have sim: "simulate_adapters_assembly E records =
     (case first_of_sorted E (s0, c0) (s1, c1) of
        Inl e \<Rightarrow> Inl e
      | Inr best \<Rightarrow> Inr (ReturnsFragment (?relabel (snd best))))"
    using len four two unfolding m
    by (auto simp: simulate_adapters_assembly_def Let_def split: sum.splits)
  have total: "\<exists>f. simulate_adapters_assembly E records = Inr (ReturnsFragment f)"
    if "s0 \<noteq> s1"
    using that by (auto simp: sim first_of_sorted_def)
  have best: "\<exists>start finish fragments.
               start \<in> set (adapter_fragments_of m) \<and> finish \<in> set (adapter_fragments_of m) \<and>
               finish \<noteq> start \<and>
               has_path E (connections_graph m) start finish \<and>
               lookup_fragments (fragments_dict m)
                   (shortest_path E (connections_graph m) start finish) = Inr fragments \<and>
               score_of fragments = min s0 s1 \<and>
               f = ?relabel (assemble E fragments)"
    if f: "simulate_adapters_assembly E records = Inr (ReturnsFragment f)" for f
  proof -
    from f obtain s c where b: "first_of_sorted E (s0, c0) (s1, c1) = Inr (s, c)"
      and fc: "f = ?relabel c"
      by (auto simp: sim split: sum.splits)
    from b have sc: "(s, c) \<in> set [(s0, c0), (s1, c1)]" and smin: "s = min s0 s1"
      by (auto simp: first_of_sorted_def split: if_splits sum.splits)
    from path_constructs_entry [OF two sc] obtain start finish fragments where
      "(start, finish) \<in> set (List.product (adapter_fragments_of m) (adapter_fragments_of m))"
      "finish \<noteq> start" "has_path E (connections_graph m) start finish"
      "lookup_fragments (fragments_dict m)
         (shortest_path E (connections_graph m) start finish) = Inr fragments"
      "s = score_of fragments" "c = assemble E fragments"
      by blast
    with smin fc show ?thesis by auto
  qed
  from total best show ?thesis by blast
qed

theorem adapted_fragment_has_fewest_reversed_witness:
  "2 \<le> length example_triplet \<and>
   example_adapter_mix ''p_adapters_ligation''
     = RestrictionLigationMix example_collaborators example_triplet [''BsaI'']
         (part_id (example_triplet ! 1) @ ''_adapters_ligation'') \<and>
   length (adapter_fragments_of (example_adapter_mix ''p_adapters_ligation'')) = 4 \<and>
   path_constructs example_collaborators (example_adapter_mix ''p_adapters_ligation'')
       (List.product (adapter_fragments_of (example_adapter_mix ''p_adapters_ligation''))
                     (adapter_fragments_of (example_adapter_mix ''p_adapters_ligation'')))
     = Inr [(0, example_assemble example_forward_path),
            (3, example_assemble example_reverse_path)] \<and>
   (\<exists>f. simulate_adapters_assembly example_collaborators example_triplet
           = Inr (ReturnsFragment f)) \<and>
   simulate_adapters_assembly example_collaborators example_triplet
     = Inr (ReturnsFragment
         ((example_assemble example_forward_path)
            \<lparr>fragment_id := ''p_with_adapters'', original_part := Some \<lparr>part_id = ''p''\<rparr>\<rparr>)) \<and>
   score_of example_forward_path = min 0 3"
proof -
  have len: "2 \<le> length example_triplet" by code_simp
  have m: "example_adapter_mix ''p_adapters_ligation''
     = RestrictionLigationMix example_collaborators example_triplet [''BsaI'']
         (part_id (example_triplet ! 1) @ ''_adapters_ligation'')"
    by code_simp
  have four: "length (adapter_fragments_of (example_adapter_mix ''p_adapters_ligation'')) = 4"
    by code_simp
  have two: "path_constructs example_collaborators (example_adapter_mix ''p_adapters_ligation'')
       (List.product (adapter_fragments_of (example_adapter_mix ''p_adapters_ligation''))
                     (adapter_fragments_of (example_adapter_mix ''p_adapters_ligation'')))
     = Inr [(0, example_assemble example_forward_path),
            (3, example_assemble example_reverse_path)]"
    by code_simp
  have res: "simulate_adapters_assembly example_collaborators example_triplet
     = Inr (ReturnsFragment
         ((example_assemble example_forward_path)
            \<lparr>fragment_id := ''p_with_adapters'', original_part := Some \<lparr>part_id = ''p''\<rparr>\<rparr>))"
    by code_simp
  have sc: "score_of example_forward_path = min 0 3" by code_simp
  from adapted_fragment_has_fewest_reversed [OF len m four two] len m four two res sc
  show ?thesis by simp
qed

subsection \<open>BASIC assembly: the construct records\<close>

text \<open>
  C9. Provided \<^verbatim>\<open>attribute_ids_to_constructs\<close> (a method of the base class, not in these
  sources) only renames the records and leaves their sequences in place, every
  simulation that \<^verbatim>\<open>simulate\<close> returns has at most \<^verbatim>\<open>max_constructs\<close> construct records,
  in non-decreasing order of their sequence strings.
\<close>

theorem construct_records_capped_and_sorted:
  assumes ids: "\<And>cs. map fragment_seq (attribute_ids_to_constructs E self cs) = map fragment_seq cs"
    and res: "simulate E self parts annotate_parts_homologies = Inr sim"
  shows "length (construct_records sim) \<le> nat (max_constructs self) \<and>
         sorted (map fragment_seq (construct_records sim))"
proof (cases "length parts mod 3 \<noteq> 0")
  case True
  with res show ?thesis by (auto simp: simulate_def)
next
  case False
  show ?thesis
  proof (cases "adapt_triplets E (part_triplets parts)")
    case (Inl e)
    with False res show ?thesis by (simp add: simulate_def)
  next
    case (Inr r)
    show ?thesis
    proof (cases r)
      case (Inr failure)
      with \<open>adapt_triplets E (part_triplets parts) = Inr r\<close> False res show ?thesis
        by (auto simp: simulate_def)
    next
      case (Inl adapted)
      define xs where "xs = sort_key fragment_seq (take (nat (max_constructs self))
        (compute_circular_assemblies E
           (StickyEndAssemblyMix E (name self @ ''_BASIC_mix'') adapted)
           annotate_parts_homologies))"
      from Inl \<open>adapt_triplets E (part_triplets parts) = Inr r\<close> False res
      have cr: "construct_records sim = attribute_ids_to_constructs E self xs"
        by (auto simp: simulate_def Let_def xs_def)
      have "length (map fragment_seq (attribute_ids_to_constructs E self xs))
              = length (map fragment_seq xs)"
        by (simp only: ids)
      then have len: "length (attribute_ids_to_constructs E self xs) = length xs" by simp
      have "length xs \<le> nat (max_constructs self)" by (simp add: xs_def)
      moreover have "sorted (map fragment_seq xs)" by (simp add: xs_def)
      ultimately show ?thesis using cr len ids [of xs] by simp
    qed
  qed
qed

theorem construct_records_capped_and_sorted_witness:
  "(\<forall>cs. map fragment_seq (attribute_ids_to_constructs example_collaborators example_assembly cs)
          = map fragment_seq cs) \<and>
   \<not> isl (simulate example_collaborators example_assembly example_triplet True) \<and>
   map fragment_seq (construct_records
       (projr (simulate example_collaborators example_assembly example_triplet True)))
     = [''AACC'', ''GGTT''] \<and>
   length (construct_records
       (projr (simulate example_collaborators example_assembly example_triplet True)))
     \<le> nat (max_constructs example_assembly) \<and>
   sorted (map fragment_seq (construct_records
       (projr (simulate example_collaborators example_assembly example_triplet True))))"
proof -
  have ids: "map fragment_seq (attribute_ids_to_constructs example_collaborators
               example_assembly cs) = map fragment_seq cs" for cs
    by (simp add: example_collaborators_def comp_def)
  have r: "\<not> isl (simulate example_collaborators example_assembly example_triplet True)"
    by code_simp
  then have res: "simulate example_collaborators example_assembly example_triplet True
      = Inr (projr (simulate example_collaborators example_assembly example_triplet True))"
    by simp
  have seqs: "map fragment_seq (construct_records
       (projr (simulate example_collaborators example_assembly example_triplet True)))
     = [''AACC'', ''GGTT'']"
    by code_simp
  from construct_records_capped_and_sorted [OF ids res] ids r seqs show ?thesis
    by blast
qed

end
